theory Spec2Isabelle
  imports Main "HOL-Library.Word" "HOL-Library.Sublist"
begin

section \<open>The raw response sink (net/http's http.ResponseWriter)\<close>

text \<open>
  The raw sink is the collaborator that \<^verbatim>\<open>responseWriter\<close> wraps. It is not code of
  this package, so it is modelled by what the package can observe of it: the header map
  that \<^verbatim>\<open>Header()\<close> hands out, the calls it has received so far (oldest first), the
  result its \<^verbatim>\<open>Write\<close> reports for a buffer after a given history of calls, and whether
  it also implements \<^verbatim>\<open>http.Flusher\<close>. A status line is sent together with the header
  map as it stands at that moment, so the call records that map.
\<close>

type_synonym bytes = "8 word list"

type_synonym header = "string \<rightharpoonup> string list"

datatype sink_call = SinkWriteHeader int header | SinkWrite bytes | SinkFlush

record sink =
  hdr :: header
  calls :: "sink_call list"
  wres :: "sink_call list \<Rightarrow> bytes \<Rightarrow> int \<times> string option"
  flusher :: bool

definition sink_WriteHeader :: "int \<Rightarrow> sink \<Rightarrow> sink" where
  "sink_WriteHeader c k = k\<lparr>calls := calls k @ [SinkWriteHeader c (hdr k)]\<rparr>"

definition sink_Write :: "bytes \<Rightarrow> sink \<Rightarrow> (int \<times> string option) \<times> sink" where
  "sink_Write b k = (wres k (calls k) b, k\<lparr>calls := calls k @ [SinkWrite b]\<rparr>)"

definition sink_Flush :: "sink \<Rightarrow> sink" where
  "sink_Flush k = k\<lparr>calls := calls k @ [SinkFlush]\<rparr>"

text \<open>
  \<^verbatim>\<open>http.Header.Get\<close> and \<^verbatim>\<open>http.Header.Set\<close> look a key up, and store it, in its
  canonical form (\<^verbatim>\<open>textproto.CanonicalMIMEHeaderKey\<close>, as the standard library documents
  it): the first letter and every letter after a hyphen in upper case, the other letters
  in lower case; a key with a space or another byte that is not a header field byte is
  left as it is.
\<close>

definition lowers :: string where
  "lowers = ''abcdefghijklmnopqrstuvwxyz''"

definition uppers :: string where
  "uppers = ''ABCDEFGHIJKLMNOPQRSTUVWXYZ''"

definition validHeaderFieldByte :: "char \<Rightarrow> bool" where
  "validHeaderFieldByte c \<longleftrightarrow>
     c \<in> set (lowers @ uppers @ ''0123456789'' @ ''!#$%&*+-.^_|~'' @ [CHR 0x27, CHR 0x60])"

definition toUpper :: "char \<Rightarrow> char" where
  "toUpper c = (case map_of (zip lowers uppers) c of Some u \<Rightarrow> u | None \<Rightarrow> c)"

definition toLower :: "char \<Rightarrow> char" where
  "toLower c = (case map_of (zip uppers lowers) c of Some u \<Rightarrow> u | None \<Rightarrow> c)"

fun canonical_from :: "bool \<Rightarrow> string \<Rightarrow> string" where
  "canonical_from up [] = []"
| "canonical_from up (c # cs) =
     (let c1 = (if up then toUpper c else toLower c)
      in c1 # canonical_from (c1 = CHR ''-'') cs)"

definition CanonicalMIMEHeaderKey :: "string \<Rightarrow> string" where
  "CanonicalMIMEHeaderKey s = (if list_all validHeaderFieldByte s then canonical_from True s else s)"

definition hGet :: "header \<Rightarrow> string \<Rightarrow> string" where
  "hGet h k = (case h (CanonicalMIMEHeaderKey k) of None \<Rightarrow> [] | Some [] \<Rightarrow> [] | Some (v # _) \<Rightarrow> v)"

definition hSet :: "string \<Rightarrow> string \<Rightarrow> header \<Rightarrow> header" where
  "hSet k v h = h(CanonicalMIMEHeaderKey k \<mapsto> [v])"

section \<open>response-writer.go: the response sink wrapper\<close>

record responseWriter =
  w :: sink
  numBytesW :: "64 word"
  code :: int
  headerWritten :: bool

datatype http_ResponseWriter = RawSink sink | Wrapped responseWriter

fun AsResponseWriter :: "http_ResponseWriter \<Rightarrow> responseWriter" where
  "AsResponseWriter (Wrapped t) = t"
| "AsResponseWriter (RawSink k) = \<lparr>w = k, numBytesW = 0, code = 0, headerWritten = False\<rparr>"

definition NumBytesWritten :: "responseWriter \<Rightarrow> 64 word" where
  "NumBytesWritten t = numBytesW t"

definition StatusOK :: int where
  "StatusOK = 200"

definition ResponseCode :: "responseWriter \<Rightarrow> int" where
  "ResponseCode t = (if code t \<le> 0 then StatusOK else code t)"

definition ensureHeaderWritten :: "responseWriter \<Rightarrow> responseWriter" where
  "ensureHeaderWritten t =
     (if \<not> headerWritten t
      then t\<lparr>w := sink_WriteHeader (ResponseCode t) (w t), headerWritten := True\<rparr>
      else t)"

definition Write :: "bytes \<Rightarrow> responseWriter \<Rightarrow> (int \<times> string option) \<times> responseWriter" where
  "Write b t =
     (let t1 = ensureHeaderWritten t;
          (r, k) = sink_Write b (w t1)
      in (r, t1\<lparr>w := k, numBytesW := numBytesW t1 + word_of_int (fst r)\<rparr>))"

definition Flush :: "responseWriter \<Rightarrow> responseWriter" where
  "Flush t =
     (let t1 = ensureHeaderWritten t
      in if flusher (w t1) then t1\<lparr>w := sink_Flush (w t1)\<rparr> else t1)"

definition Header :: "responseWriter \<Rightarrow> header" where
  "Header t = hdr (w t)"

definition Header_Set :: "string \<Rightarrow> string \<Rightarrow> responseWriter \<Rightarrow> responseWriter" where
  "Header_Set k v t = t\<lparr>w := (w t)\<lparr>hdr := hSet k v (hdr (w t))\<rparr>\<rparr>"

definition WriteHeader :: "int \<Rightarrow> responseWriter \<Rightarrow> responseWriter" where
  "WriteHeader c t = (if headerWritten t then t else t\<lparr>code := c\<rparr>)"

definition IsHeaderWritten :: "responseWriter \<Rightarrow> bool" where
  "IsHeaderWritten t = headerWritten t"

text \<open>
  A pipeline stage drives the wrapper through three calls only. \<open>rw_run\<close> applies a
  sequence of them, and \<open>statuses\<close> reads off the status lines the raw sink has been
  sent.
\<close>

datatype rw_op = OpWriteHeader int | OpWrite bytes | OpFlush

fun rw_apply :: "rw_op \<Rightarrow> responseWriter \<Rightarrow> responseWriter" where
  "rw_apply (OpWriteHeader c) t = WriteHeader c t"
| "rw_apply (OpWrite b) t = snd (Write b t)"
| "rw_apply OpFlush t = Flush t"

fun rw_run :: "rw_op list \<Rightarrow> responseWriter \<Rightarrow> responseWriter" where
  "rw_run [] t = t"
| "rw_run (x # xs) t = rw_run xs (rw_apply x t)"

fun is_commit :: "rw_op \<Rightarrow> bool" where
  "is_commit (OpWriteHeader c) = False"
| "is_commit (OpWrite b) = True"
| "is_commit OpFlush = True"

fun statuses :: "sink_call list \<Rightarrow> int list" where
  "statuses [] = []"
| "statuses (SinkWriteHeader c h # cs) = c # statuses cs"
| "statuses (SinkWrite b # cs) = statuses cs"
| "statuses (SinkFlush # cs) = statuses cs"

text \<open>The contract of \<^verbatim>\<open>io.Writer\<close>: a write reports between 0 and \<^verbatim>\<open>len(b)\<close> bytes.\<close>

definition io_Writer_ok :: "sink \<Rightarrow> bool" where
  "io_Writer_ok k = (\<forall>h b. 0 \<le> fst (wres k h b) \<and> fst (wres k h b) \<le> int (length b))"

text \<open>A raw sink that accepts every byte and can flush: the sink of the examples.\<close>

definition sink0 :: sink where
  "sink0 = \<lparr>hdr = Map.empty, calls = [], wres = (\<lambda>h b. (int (length b), None)), flusher = True\<rparr>"

section \<open>The connection gate (Listener)\<close>

subsection \<open>float32 arithmetic of the low threshold\<close>

text \<open>
  The low threshold is \<^verbatim>\<open>int32(float32(maxNumConn) * 0.95)\<close>. Every value on the way is a
  non-negative float32 in the normal range, so it is modelled exactly with natural
  numbers: \<open>round24\<close> rounds a natural number to 24 significant bits, to nearest and
  ties to even, as the conversion to float32 and the float32 product do. The constant
  \<^verbatim>\<open>0.95\<close> becomes the float32 \<open>15938355 / 2^24\<close>, so the exact product of
  \<^verbatim>\<open>float32(maxNumConn)\<close> with it is \<open>round24 maxNumConn * 15938355\<close> in units of
  \<open>2^-24\<close>; rounding that numerator to 24 significant bits is the float32 product, and
  the conversion to int32 truncates, which on these units is \<open>div 2^24\<close>.
\<close>

type_synonym int32 = "32 word"

type_synonym uint32 = "32 word"

fun bitlen :: "nat \<Rightarrow> nat" where
  "bitlen n = (if n = 0 then 0 else Suc (bitlen (n div 2)))"

declare bitlen.simps [simp del]

definition round24 :: "nat \<Rightarrow> nat" where
  "round24 a =
     (if bitlen a \<le> 24 then a
      else let s = bitlen a - 24;
               q = a div 2 ^ s;
               r = a mod 2 ^ s;
               h = 2 ^ (s - 1)
           in (if h < r \<or> (r = h \<and> odd q) then q + 1 else q) * 2 ^ s)"

definition float32_095 :: nat where
  "float32_095 = 15938355"

definition lowThreshold :: "int32 \<Rightarrow> int32" where
  "lowThreshold m = word_of_nat (round24 (round24 (nat (sint m)) * float32_095) div 2 ^ 24)"

subsection \<open>State\<close>

text \<open>
  The raw listener is a collaborator: the model keeps how often its \<^verbatim>\<open>Close\<close> and
  \<^verbatim>\<open>Accept\<close> were called, the error its \<^verbatim>\<open>Close\<close> returns and whether its
  \<^verbatim>\<open>Accept\<close> yields a connection. What the gate does beyond its fields (a log line, a
  broadcast on one of its three condition variables) is appended to \<open>events\<close>.
\<close>

record net_Listener =
  closeCalls :: nat
  closeErr :: "string option"
  acceptCalls :: nat
  acceptOk :: bool

datatype cond = PausedCond | ClosedCond | ZeroCond

datatype gate_event = LogPause int32 int32 | LogUnpause int32 int32 | Broadcast cond

record Listener =
  closed :: uint32
  paused :: uint32
  hardPaused :: uint32
  maxNumConnHi :: int32
  maxNumConnLo :: int32
  numConn :: int32
  l :: net_Listener
  panicFlags :: "8 word"
  trackConnOnAccept :: bool
  events :: "gate_event list"

definition ClosedErr :: string where
  "ClosedErr = ''<closed>''"

text \<open>\<^verbatim>\<open>atomic.CompareAndSwapUint32\<close>: whether it swapped, and the value left behind.\<close>

definition CompareAndSwapUint32 :: "uint32 \<Rightarrow> uint32 \<Rightarrow> uint32 \<Rightarrow> bool \<times> uint32" where
  "CompareAndSwapUint32 v old new = (if v = old then (True, new) else (False, v))"

definition signalCond :: "cond \<Rightarrow> Listener \<Rightarrow> Listener" where
  "signalCond c s = s\<lparr>events := events s @ [Broadcast c]\<rparr>"

subsection \<open>Construction and thresholds\<close>

definition NewListener :: "net_Listener \<Rightarrow> int32 \<Rightarrow> 8 word \<Rightarrow> Listener" where
  "NewListener l0 maxNumConn pf =
     (let m = (if sint maxNumConn \<le> 0 then 10 else maxNumConn)
      in \<lparr>closed = 0, paused = 0, hardPaused = 0,
          maxNumConnHi = m, maxNumConnLo = lowThreshold m, numConn = 0,
          l = l0, panicFlags = pf, trackConnOnAccept = False, events = []\<rparr>)"

definition ResetMaxNumConn :: "int32 \<Rightarrow> Listener \<Rightarrow> Listener" where
  "ResetMaxNumConn maxNumConn s =
     (let m = (if sint maxNumConn \<le> 0 then 10 else maxNumConn)
      in s\<lparr>maxNumConnHi := m, maxNumConnLo := lowThreshold m\<rparr>)"

subsection \<open>Run and afterRun\<close>

text \<open>
  \<open>Run_enter\<close> is \<^verbatim>\<open>Run\<close> from its first line to the \<^verbatim>\<open>defer\<close>, without the
  callbacks: it tells which way \<^verbatim>\<open>Run\<close> goes and what it has done to the gate.
\<close>

datatype entry = EntryClosed | EntryPaused | EntryRun

definition Run_enter :: "Listener \<Rightarrow> entry \<times> Listener" where
  "Run_enter s =
     (if closed s = 1 then (EntryClosed, s)
      else
        let s1 = (if trackConnOnAccept s then s else s\<lparr>numConn := numConn s + 1\<rparr>);
            n = numConn s1
        in if hardPaused s1 = 1 \<or> paused s1 = 1 then (EntryPaused, s1)
           else if sint (maxNumConnHi s1) \<le> sint n then
             (case CompareAndSwapUint32 (paused s1) 0 1 of
                (True, p) \<Rightarrow>
                  (EntryRun, s1\<lparr>paused := p, events := events s1 @ [LogPause (maxNumConnHi s1) n]\<rparr>)
              | (False, p) \<Rightarrow> (EntryRun, s1))
           else (EntryRun, s1))"

definition afterRun :: "Listener \<Rightarrow> Listener" where
  "afterRun s =
     (let s1 = (if trackConnOnAccept s then s else s\<lparr>numConn := numConn s - 1\<rparr>);
          n = numConn s1
      in if sint n \<le> sint (maxNumConnLo s1) then
           let s2 = (case CompareAndSwapUint32 (paused s1) 1 0 of
                       (True, p) \<Rightarrow>
                         signalCond PausedCond
                           (s1\<lparr>paused := p, events := events s1 @ [LogUnpause (maxNumConnLo s1) n]\<rparr>)
                     | (False, p) \<Rightarrow> s1)
           in if n = 0
              then signalCond ZeroCond (if closed s2 = 1 then signalCond ClosedCond s2 else s2)
              else s2
         else s1)"

text \<open>
  A callback is a Go closure: it may change anything it has captured, the gate included,
  and it may panic. So it maps the whole world (the gate and the rest) to an outcome,
  which is the world it leaves together with whether it returned or panicked.
  \<^verbatim>\<open>Run\<close> also reports which callbacks it invoked, in order.
\<close>

datatype 'a outcome = Returned 'a | Panicked 'a

fun state_of :: "'a outcome \<Rightarrow> 'a" where
  "state_of (Returned x) = x"
| "state_of (Panicked x) = x"

fun returned :: "'a outcome \<Rightarrow> bool" where
  "returned (Returned x) = True"
| "returned (Panicked x) = False"

record 'u world =
  gate :: Listener
  rest :: 'u

datatype callback = CbClosed | CbPaused | CbRun

type_synonym 'u func = "'u world \<Rightarrow> 'u world outcome"

text \<open>The call of \<^verbatim>\<open>onRun\<close> under \<^verbatim>\<open>defer s.afterRun()\<close>: \<^verbatim>\<open>afterRun\<close> runs when
  \<^verbatim>\<open>onRun\<close> returns and when it panics, and a panic goes on to the caller.\<close>

definition Run_deferred :: "'u func \<Rightarrow> callback list \<Rightarrow> 'u world \<Rightarrow> callback list \<times> 'u world outcome" where
  "Run_deferred onRun cs x =
     (case onRun x of
        Returned y \<Rightarrow> (cs @ [CbRun], Returned (y\<lparr>gate := afterRun (gate y)\<rparr>))
      | Panicked y \<Rightarrow> (cs @ [CbRun], Panicked (y\<lparr>gate := afterRun (gate y)\<rparr>)))"

definition Run :: "'u func \<Rightarrow> 'u func \<Rightarrow> 'u func \<Rightarrow> 'u world \<Rightarrow> callback list \<times> 'u world outcome" where
  "Run onClosed onPaused onRun x =
     (case Run_enter (gate x) of
        (EntryClosed, s1) \<Rightarrow> ([CbClosed], onClosed x)
      | (EntryPaused, s1) \<Rightarrow>
          (case onPaused (x\<lparr>gate := s1\<rparr>) of
             Panicked y \<Rightarrow> ([CbPaused], Panicked y)
           | Returned y \<Rightarrow> Run_deferred onRun [CbPaused] y)
      | (EntryRun, s1) \<Rightarrow> Run_deferred onRun [] (x\<lparr>gate := s1\<rparr>))"

subsection \<open>Pause, resume, close, accept\<close>

definition HardPause :: "Listener \<Rightarrow> Listener" where
  "HardPause s = (if closed s = 1 then s else s\<lparr>hardPaused := 1\<rparr>)"

definition ResumeFromHardPause :: "Listener \<Rightarrow> Listener" where
  "ResumeFromHardPause s =
     (if closed s = 1 then s else signalCond PausedCond (s\<lparr>hardPaused := 0\<rparr>))"

definition IsClosed :: "Listener \<Rightarrow> bool" where
  "IsClosed s = (closed s = 1)"

definition net_Close :: "net_Listener \<Rightarrow> net_Listener" where
  "net_Close k = k\<lparr>closeCalls := closeCalls k + 1\<rparr>"

definition net_Accept :: "net_Listener \<Rightarrow> net_Listener" where
  "net_Accept k = k\<lparr>acceptCalls := acceptCalls k + 1\<rparr>"

text \<open>\<^verbatim>\<open>Close\<close> up to its wait: the compare-and-swap on \<open>closed\<close> and, where that
  swapped, the close of the raw listener.\<close>

definition Close_begin :: "Listener \<Rightarrow> bool \<times> Listener" where
  "Close_begin s =
     (case CompareAndSwapUint32 (closed s) 0 1 of
        (False, c) \<Rightarrow> (False, s)
      | (True, c) \<Rightarrow> (True, s\<lparr>closed := c, l := net_Close (l s)\<rparr>))"

text \<open>
  What other goroutines do to the gate while a caller waits, taken as steps that each
  run undivided: the part of \<^verbatim>\<open>Run\<close> before the callbacks, \<^verbatim>\<open>afterRun\<close>, and the calls
  that do not block. (The interleaving of their atomic operations is modelled further
  below.)
\<close>

datatype gate_op = OpEnter | OpExit | OpHardPause | OpResume | OpReset int32 | OpCloseBegin

fun gate_step :: "gate_op \<Rightarrow> Listener \<Rightarrow> Listener" where
  "gate_step OpEnter s = snd (Run_enter s)"
| "gate_step OpExit s = afterRun s"
| "gate_step OpHardPause s = HardPause s"
| "gate_step OpResume s = ResumeFromHardPause s"
| "gate_step (OpReset m) s = ResetMaxNumConn m s"
| "gate_step OpCloseBegin s = snd (Close_begin s)"

fun gate_run :: "gate_op list \<Rightarrow> Listener \<Rightarrow> Listener" where
  "gate_run [] s = s"
| "gate_run (x # xs) s = gate_run xs (gate_step x s)"

text \<open>
  \<^verbatim>\<open>waitCond(c, true, fn)\<close>: the loop \<^verbatim>\<open>for fn() { c.Wait() }\<close>. While the caller is parked
  in one \<^verbatim>\<open>Wait\<close> the other goroutines take steps; the schedule lists them, one entry
  for each \<^verbatim>\<open>Wait\<close>. The result tells whether the loop was left (it is still parked when
  the schedule ends with the condition true) and gives the gate at that moment.
\<close>

fun waitCond :: "(Listener \<Rightarrow> bool) \<Rightarrow> gate_op list list \<Rightarrow> Listener \<Rightarrow> bool \<times> Listener" where
  "waitCond cnd [] s = (\<not> cnd s, s)"
| "waitCond cnd (e # es) s = (if cnd s then waitCond cnd es (gate_run e s) else (True, s))"

datatype close_result = CloseReturned "string option" | CloseBlocked

definition Close :: "gate_op list list \<Rightarrow> Listener \<Rightarrow> close_result \<times> Listener" where
  "Close sched s =
     (case Close_begin s of
        (False, s1) \<Rightarrow> (CloseReturned None, s1)
      | (True, s1) \<Rightarrow>
          (case waitCond (\<lambda>g. 0 < sint (numConn g)) sched s1 of
             (True, s2) \<Rightarrow> (CloseReturned (closeErr (l s1)), s2)
           | (False, s2) \<Rightarrow> (CloseBlocked, s2)))"

datatype accept_result = AcceptConn | AcceptErr string | AcceptBlocked

definition Accept :: "gate_op list list \<Rightarrow> Listener \<Rightarrow> accept_result \<times> Listener" where
  "Accept sched s =
     (if closed s = 1 then (AcceptErr ClosedErr, s)
      else
        (case waitCond (\<lambda>g. hardPaused g = 1 \<or> paused g = 1) sched s of
           (False, s1) \<Rightarrow> (AcceptBlocked, s1)
         | (True, s1) \<Rightarrow>
             (let s2 = s1\<lparr>l := net_Accept (l s1)\<rparr>
              in if acceptOk (l s1)
                 then (AcceptConn, if trackConnOnAccept s2 then s2\<lparr>numConn := numConn s2 + 1\<rparr> else s2)
                 else (AcceptErr ''accept'', s2))))"

definition WaitZeroInflight :: "gate_op list list \<Rightarrow> Listener \<Rightarrow> bool \<times> Listener" where
  "WaitZeroInflight sched s = waitCond (\<lambda>g. numConn g \<noteq> 0) sched s"

text \<open>The raw listener of the examples.\<close>

definition l0 :: net_Listener where
  "l0 = \<lparr>closeCalls = 0, closeErr = None, acceptCalls = 0, acceptOk = True\<rparr>"

text \<open>
  A callback keeps the count when the gate it leaves has the in-flight count it found
  (what it did to the gate, or let other requests do meanwhile, is balanced) and the
  \<open>trackConnOnAccept\<close> setting it found, which nothing in the package ever reassigns.
\<close>

definition keeps_count :: "'u func \<Rightarrow> bool" where
  "keeps_count f =
     (\<forall>y. numConn (gate (state_of (f y))) = numConn (gate y)
        \<and> trackConnOnAccept (gate (state_of (f y))) = trackConnOnAccept (gate y))"

text \<open>Callbacks of the examples: one that returns at once and one that panics at once.\<close>

definition cb_return :: "unit func" where
  "cb_return y = Returned y"

definition cb_panic :: "unit func" where
  "cb_panic y = Panicked y"







subsection \<open>The gate under interleaving\<close>

text \<open>
  \<^verbatim>\<open>Run\<close>, \<^verbatim>\<open>afterRun\<close>, \<^verbatim>\<open>HardPause\<close>, \<^verbatim>\<open>ResumeFromHardPause\<close>, \<^verbatim>\<open>ResetMaxNumConn\<close> and
  \<^verbatim>\<open>Close\<close> are sequences of atomic operations on the fields of the gate, and the
  goroutines that run them interleave between any two of them. A goroutine is modelled
  by where it stands in the function it runs, together with the local variables it holds
  there (\<^verbatim>\<open>n\<close>, \<^verbatim>\<open>nHi\<close>, \<^verbatim>\<open>nLo\<close>): \<open>RunOpen\<close> after line 121 has read \<open>closed\<close> as 0,
  \<open>RunCounted n\<close> after line 129 or 131, \<open>RunNotHard n\<close> and \<open>RunNotPaused n\<close> after the
  two loads of line 134 have read 0, \<open>RunAtCeiling n nHi\<close> after line 136 has found
  \<^verbatim>\<open>n >= nHi\<close>, before the compare-and-swap of line 137; \<open>InClosed\<close>, \<open>InPaused\<close> and
  \<open>InRun\<close> while the callback of that name runs; \<open>AfterCalled\<close> when the deferred
  \<^verbatim>\<open>afterRun\<close> starts, \<open>AfterCounted n\<close> after line 158 or 160, \<open>AfterBelow n nLo\<close> after
  line 162 has found \<^verbatim>\<open>n <= nLo\<close>, \<open>AfterCleared n\<close> after the swap of line 163 succeeded,
  \<open>AfterZero\<close> before line 168, then the two broadcasts; and likewise for the other
  functions. \<open>CloseWaiting\<close> is \<^verbatim>\<open>Close\<close> in its wait loop. \<^verbatim>\<open>Accept\<close>,
  \<^verbatim>\<open>WaitZeroInflight\<close> and \<^verbatim>\<open>IsClosed\<close> only read the fields that matter here (no gate
  that \<^verbatim>\<open>NewListener\<close> builds counts connections in \<^verbatim>\<open>Accept\<close>), so they take no step.
\<close>

datatype gcall = CallRun | CallHardPause | CallResume | CallReset int32 | CallClose





datatype fop = Begin nat gcall | Step nat | Return nat | Fault nat





text \<open>
  The reading of ``the in-flight count has crossed the high threshold and has not fallen
  back to the low threshold since'', over the states a schedule goes through: after each
  atomic operation, a count at or above the high threshold in force sets it, a count at
  or below the low threshold clears it.
\<close>

definition crossed_step :: "int \<Rightarrow> int \<Rightarrow> bool \<Rightarrow> int \<Rightarrow> bool" where
  "crossed_step hi lo c n = (if hi \<le> n then True else if n \<le> lo then False else c)"

definition observe :: "Listener \<Rightarrow> bool \<Rightarrow> bool" where
  "observe s c = crossed_step (sint (maxNumConnHi s)) (sint (maxNumConnLo s)) c (sint (numConn s))"

















section \<open>pipeline.go: stages, the compression stage, the dispatcher\<close>

subsection \<open>Collaborators of the compression stage\<close>

text \<open>
  \<^verbatim>\<open>compress/gzip\<close>, the pool and \<^verbatim>\<open>http.DetectContentType\<close> are not code of this
  package. A \<^verbatim>\<open>gzip.Writer\<close> is modelled by the operations it has performed since its
  last \<^verbatim>\<open>Reset\<close> and by where it writes to: the response writer it was reset to, or
  \<^verbatim>\<open>ioutil.Discard\<close>. What it hands to its target on an operation is given by a function
  of that history, \<open>gzEmit\<close>, a parameter of the model. The pool is modelled by the
  number of idle writers it holds, its capacity, and how often it was asked and given
  back to.
\<close>

datatype gzop = GzWrite bytes | GzFlush | GzClose

datatype gz_target = ToWriter | ToDiscard

record gzip_Writer =
  hist :: "gzop list"
  target :: gz_target

record pool_T =
  idle :: nat
  poolCap :: nat
  gets :: nat
  puts :: nat

definition pool_Get :: "pool_T \<Rightarrow> pool_T" where
  "pool_Get p = p\<lparr>idle := idle p - 1, gets := gets p + 1\<rparr>"

definition pool_Put :: "pool_T \<Rightarrow> pool_T" where
  "pool_Put p = p\<lparr>idle := (if poolCap p \<le> idle p then idle p else idle p + 1), puts := puts p + 1\<rparr>"

text \<open>\<^verbatim>\<open>strings.Contains\<close>.\<close>

fun contains :: "string \<Rightarrow> string \<Rightarrow> bool" where
  "contains [] sub = (sub = [])"
| "contains (c # cs) sub = (prefix sub (c # cs) \<or> contains cs sub)"

text \<open>The regular expression \<^verbatim>\<open>^text/|(json|javascript|plain|html|css|xml)\<close>, matched
  anywhere in the string.\<close>

definition gzipTypes_MatchString :: "string \<Rightarrow> bool" where
  "gzipTypes_MatchString ctype =
     (prefix ''text/'' ctype \<or> contains ctype ''json'' \<or> contains ctype ''javascript''
      \<or> contains ctype ''plain'' \<or> contains ctype ''html'' \<or> contains ctype ''css''
      \<or> contains ctype ''xml'')"

subsection \<open>State of one request\<close>

text \<open>
  What serving one request reads and changes: the wrapped response sink \<open>w2\<close>, the
  \<^verbatim>\<open>gzipWriter\<close> wrappers stacked on it (the wrapper at position \<open>k\<close> wraps the writer of
  depth \<open>k\<close>, and is itself the writer of depth \<open>k + 1\<close>; depth 0 is \<open>w2\<close>), the pool and
  the behaviour of its compressors, content sniffing, the request, the gate the server
  embeds and the server's request counter.
\<close>

record Request =
  reqHeader :: header

record gzipWriter =
  started :: bool
  gw :: "gzip_Writer option"

record serving =
  w2 :: responseWriter
  gzs :: "gzipWriter list"
  gzpool :: pool_T
  gzEmit :: "gzop list \<Rightarrow> gzop \<Rightarrow> bytes"
  DetectContentType :: "bytes \<Rightarrow> string"
  request :: Request
  lsn :: Listener
  seqno :: "64 word"

subsection \<open>gzipWriter\<close>

text \<open>
  One operation of the compressor of wrapper \<open>k\<close>: the bytes it emits go to its target
  through \<open>below\<close>, the \<^verbatim>\<open>Write\<close> of the writer it was reset to; nothing is written when
  it emits nothing. The result is the error of that write.
\<close>

definition gz_do ::
  "(bytes \<Rightarrow> serving \<Rightarrow> (int \<times> string option) \<times> serving) \<Rightarrow> nat \<Rightarrow> gzop \<Rightarrow> serving
     \<Rightarrow> string option \<times> serving" where
  "gz_do below k x st =
     (case gw (gzs st ! k) of
        None \<Rightarrow> (None, st)
      | Some z \<Rightarrow>
          (let chunk = gzEmit st (hist z) x;
               st1 = st\<lparr>gzs := (gzs st)[k := (gzs st ! k)\<lparr>gw := Some (z\<lparr>hist := hist z @ [x]\<rparr>)\<rparr>]\<rparr>
           in if target z = ToDiscard \<or> chunk = [] then (None, st1)
              else (case below chunk st1 of (r, st2) \<Rightarrow> (snd r, st2))))"

text \<open>The first-write block of \<^verbatim>\<open>gzipWriter.Write\<close>.\<close>

definition gzipWriter_start :: "nat \<Rightarrow> bytes \<Rightarrow> serving \<Rightarrow> serving" where
  "gzipWriter_start k b st =
     (let st1 = st\<lparr>gzs := (gzs st)[k := (gzs st ! k)\<lparr>started := True\<rparr>]\<rparr>;
          cEnc = hGet (Header (w2 st1)) ''Content-Encoding''
      in if cEnc = [] then
           let ctype0 = hGet (Header (w2 st1)) ''Content-Type'';
               ctype = (if ctype0 = [] then DetectContentType st1 b else ctype0);
               st2 = (if ctype0 = [] then st1\<lparr>w2 := Header_Set ''Content-Type'' ctype (w2 st1)\<rparr> else st1)
           in if gzipTypes_MatchString ctype then
                st2\<lparr>w2 := Header_Set ''Content-Encoding'' ''gzip'' (w2 st2),
                    gzpool := pool_Get (gzpool st2),
                    gzs := (gzs st2)[k := (gzs st2 ! k)\<lparr>gw := Some \<lparr>hist = [], target = ToWriter\<rparr>\<rparr>]\<rparr>
              else st2
         else st1)"

text \<open>\<^verbatim>\<open>Write\<close> of the writer of a given depth: \<^verbatim>\<open>responseWriter.Write\<close> at depth 0,
  \<^verbatim>\<open>gzipWriter.Write\<close> above.\<close>

fun w_Write :: "nat \<Rightarrow> bytes \<Rightarrow> serving \<Rightarrow> (int \<times> string option) \<times> serving" where
  "w_Write 0 b st = (case Write b (w2 st) of (r, t) \<Rightarrow> (r, st\<lparr>w2 := t\<rparr>))"
| "w_Write (Suc k) b st =
     (if k < length (gzs st) then
        let st1 = (if \<not> started (gzs st ! k) then gzipWriter_start k b st else st)
        in (case gw (gzs st1 ! k) of
              Some z \<Rightarrow>
                (case gz_do (w_Write k) k (GzWrite b) st1 of
                   (None, st2) \<Rightarrow> ((int (length b), None), st2)
                 | (Some e, st2) \<Rightarrow> ((0, Some e), st2))
            | None \<Rightarrow> w_Write k b st1)
      else w_Write k b st)"

text \<open>\<^verbatim>\<open>Flush\<close> of the writer of a given depth.\<close>

fun w_Flush :: "nat \<Rightarrow> serving \<Rightarrow> serving" where
  "w_Flush 0 st = st\<lparr>w2 := Flush (w2 st)\<rparr>"
| "w_Flush (Suc k) st =
     (if k < length (gzs st) then w_Flush k (snd (gz_do (w_Write k) k GzFlush st))
      else w_Flush k st)"

text \<open>\<^verbatim>\<open>gzipWriter.Close\<close> of wrapper \<open>k\<close>: the compressor, if one was taken, is closed and
  given back to the pool, which resets it to \<^verbatim>\<open>ioutil.Discard\<close>.\<close>

definition gzipWriter_Close :: "nat \<Rightarrow> serving \<Rightarrow> string option \<times> serving" where
  "gzipWriter_Close k st =
     (if k < length (gzs st) then
        (case gw (gzs st ! k) of
           None \<Rightarrow> (None, st)
         | Some z \<Rightarrow>
             (case gz_do (w_Write k) k GzClose st of
                (err, st1) \<Rightarrow>
                  (err, st1\<lparr>gzpool := pool_Put (gzpool st1),
                           gzs := (gzs st1)[k := (gzs st1 ! k)\<lparr>gw := Some \<lparr>hist = [], target = ToDiscard\<rparr>\<rparr>]\<rparr>)))
      else (None, st))"

subsection \<open>Stages and the pipeline\<close>

text \<open>
  An application stage is code outside this package. It is modelled by what it can do
  with its three arguments: call the writer it was given, call \<^verbatim>\<open>Next\<close> on the pipeline
  while passing that writer on, look at the state and branch, return, or panic. The
  stages of this package are \<^verbatim>\<open>HTTPServer\<close> and \<^verbatim>\<open>GzipPipe\<close>, and, as programs of the
  same kind, \<^verbatim>\<open>HttpHandlerPipe\<close> and \<^verbatim>\<open>FlusherPipe\<close>.
\<close>

datatype wcall = WWriteHeader int | WWrite bytes | WFlush | WHeaderSet string string

datatype prog =
    Done
  | Call wcall prog
  | Forward prog
  | Test "serving \<Rightarrow> bool" prog prog
  | Fault

datatype pipe = AppPipe prog | HTTPServerPipe | GzipPipe

definition HttpHandlerPipe :: "wcall list \<Rightarrow> pipe" where
  "HttpHandlerPipe h = AppPipe (foldr Call h (Forward Done))"

definition FlusherPipe :: pipe where
  "FlusherPipe = AppPipe (Forward (Call WFlush Done))"

fun w_call :: "nat \<Rightarrow> wcall \<Rightarrow> serving \<Rightarrow> serving" where
  "w_call d (WWriteHeader c) st = st\<lparr>w2 := WriteHeader c (w2 st)\<rparr>"
| "w_call d (WWrite b) st = snd (w_Write d b st)"
| "w_call d WFlush st = w_Flush d st"
| "w_call d (WHeaderSet k v) st = st\<lparr>w2 := Header_Set k v (w2 st)\<rparr>"


text \<open>
  The call stack of one request. \<open>FNext d\<close>: a call of \<^verbatim>\<open>Pipeline.Next\<close> with the writer
  of depth \<open>d\<close>. \<open>FBody x d\<close>: a call of \<^verbatim>\<open>x.ServeHttpPipe\<close> with that writer.
  \<open>FProg d p\<close>: an application stage with \<open>p\<close> still to do. \<open>FGzipAfter d\<close>:
  \<^verbatim>\<open>GzipPipe.ServeHttpPipe\<close> after its \<^verbatim>\<open>Next\<close>, with its wrapper of depth \<open>d\<close>.
  \<open>FAfterRun\<close>: \<^verbatim>\<open>Listener.Run\<close> after \<^verbatim>\<open>onRun\<close>, where the deferred \<^verbatim>\<open>afterRun\<close> runs.
\<close>

datatype frame = FNext nat | FBody pipe nat | FProg nat prog | FGzipAfter nat | FAfterRun

fun psize :: "prog \<Rightarrow> nat" where
  "psize Done = 1"
| "psize Fault = 1"
| "psize (Call c p) = Suc (psize p)"
| "psize (Forward p) = psize p + 3"
| "psize (Test b p q) = Suc (psize p + psize q)"

fun fsize :: "frame \<Rightarrow> nat" where
  "fsize (FNext d) = 1"
| "fsize (FBody (AppPipe p) d) = Suc (psize p)"
| "fsize (FBody HTTPServerPipe d) = 4"
| "fsize (FBody GzipPipe d) = 4"
| "fsize (FProg d p) = psize p"
| "fsize (FGzipAfter d) = 1"
| "fsize (FAfterRun) = 1"

text \<open>A panic unwinds the stack; the only deferred call on it is \<^verbatim>\<open>afterRun\<close>.\<close>

fun unwind :: "frame list \<Rightarrow> serving \<Rightarrow> serving" where
  "unwind [] st = st"
| "unwind (FAfterRun # fs) st = unwind fs (st\<lparr>lsn := afterRun (lsn st)\<rparr>)"
| "unwind (FNext d # fs) st = unwind fs st"
| "unwind (FBody x d # fs) st = unwind fs st"
| "unwind (FProg d p # fs) st = unwind fs st"
| "unwind (FGzipAfter d # fs) st = unwind fs st"

definition StatusServiceUnavailable :: int where
  "StatusServiceUnavailable = 503"

text \<open>
  \<open>exec ps fs i st tr\<close> runs the call stack \<open>fs\<close> of a pipeline with the stages \<open>ps\<close>
  and the cursor \<open>i\<close> (the fields \<^verbatim>\<open>s\<close> and \<^verbatim>\<open>i\<close> of \<^verbatim>\<open>Pipeline\<close>; the cursor starts at 0
  and is only ever incremented, so it is a natural number). \<open>tr\<close> collects the
  positions of the stages invoked. The equation for \<open>FNext\<close> is \<^verbatim>\<open>Pipeline.Next\<close>, the
  one for \<open>FBody GzipPipe\<close> is \<^verbatim>\<open>GzipPipe.ServeHttpPipe\<close>, and the one for
  \<open>FBody HTTPServerPipe\<close> is \<^verbatim>\<open>HTTPServer.ServeHttpPipe\<close>: \<^verbatim>\<open>Listener.Run\<close> with the three
  closures it is given there.
\<close>

function exec ::
  "pipe list \<Rightarrow> frame list \<Rightarrow> nat \<Rightarrow> serving \<Rightarrow> nat list \<Rightarrow> (nat list \<times> nat \<times> serving) outcome" where
  "exec ps [] i st tr = Returned (tr, i, st)"
| "exec ps (FNext d # fs) i st tr =
     (if length ps \<le> i then exec ps fs i st tr
      else exec ps (FBody (ps ! i) d # fs) (Suc i) st (tr @ [i]))"
| "exec ps (FBody (AppPipe p) d # fs) i st tr = exec ps (FProg d p # fs) i st tr"
| "exec ps (FBody GzipPipe d # fs) i st tr =
     (if \<not> contains (hGet (reqHeader (request st)) ''Accept-Encoding'') ''gzip''
      then exec ps (FNext d # fs) i st tr
      else exec ps (FNext (Suc d) # FGzipAfter (Suc d) # fs) i
             (st\<lparr>gzs := take d (gzs st) @ [\<lparr>started = False, gw = None\<rparr>]\<rparr>) tr)"
| "exec ps (FBody HTTPServerPipe d # fs) i st tr =
     (let st1 = st\<lparr>seqno := seqno st + 1\<rparr>
      in case Run_enter (lsn st1) of
           (EntryClosed, g) \<Rightarrow>
             exec ps fs i
               (w_call d (WWriteHeader StatusServiceUnavailable)
                  (w_call d (WHeaderSet ''Connection'' ''close'') st1)) tr
         | (EntryPaused, g) \<Rightarrow>
             exec ps (FNext d # FAfterRun # fs) i
               (w_call d (WHeaderSet ''Connection'' ''close'') (st1\<lparr>lsn := g\<rparr>)) tr
         | (EntryRun, g) \<Rightarrow> exec ps (FNext d # FAfterRun # fs) i (st1\<lparr>lsn := g\<rparr>) tr)"
| "exec ps (FProg d Done # fs) i st tr = exec ps fs i st tr"
| "exec ps (FProg d (Call c p) # fs) i st tr = exec ps (FProg d p # fs) i (w_call d c st) tr"
| "exec ps (FProg d (Forward p) # fs) i st tr = exec ps (FNext d # FProg d p # fs) i st tr"
| "exec ps (FProg d (Test b p q) # fs) i st tr = exec ps (FProg d (if b st then p else q) # fs) i st tr"
| "exec ps (FProg d Fault # fs) i st tr = Panicked (tr, i, unwind fs st)"
| "exec ps (FGzipAfter d # fs) i st tr =
     exec ps fs i (snd (gzipWriter_Close (d - 1) (w_Flush d st))) tr"
| "exec ps (FAfterRun # fs) i st tr = exec ps fs i (st\<lparr>lsn := afterRun (lsn st)\<rparr>) tr"
  by pat_completeness auto
termination
  by (relation "measures [\<lambda>(ps, fs, i, st, tr). length ps - i, \<lambda>(ps, fs, i, st, tr). sum_list (map fsize fs)]")
    (auto split: if_splits)

text \<open>\<^verbatim>\<open>p.Next(w, r)\<close> on a pipeline with the stages \<open>ps\<close> and the cursor \<open>i\<close>, for the
  writer of depth \<open>d\<close>.\<close>

definition Next :: "pipe list \<Rightarrow> nat \<Rightarrow> nat \<Rightarrow> serving \<Rightarrow> (nat list \<times> nat \<times> serving) outcome" where
  "Next ps i d st = exec ps [FNext d] i st []"

subsection \<open>The dispatcher\<close>

definition OnPanicRecover :: "8 word" where
  "OnPanicRecover = 1"

text \<open>
  \<^verbatim>\<open>HTTPServer.ServeHTTP\<close> for the application stages \<open>Pipes\<close>: the pipeline is the
  server itself, then \<open>Pipes\<close>, then a \<^verbatim>\<open>FlusherPipe\<close>, and its \<^verbatim>\<open>Next\<close> is called with
  the wrapped sink (\<open>ServeHTTP_pipeline\<close>). When the pipeline returns,
  the final \<^verbatim>\<open>Flush\<close> runs. When it panics, the deferred \<^verbatim>\<open>handlePanic\<close> recovers if the
  gate's flags say so, and \<^verbatim>\<open>ServeHTTP\<close> returns without that \<^verbatim>\<open>Flush\<close>; otherwise the
  panic goes on.
\<close>

definition ServeHTTP_pipeline ::
  "pipe list \<Rightarrow> http_ResponseWriter \<Rightarrow> Request \<Rightarrow> serving \<Rightarrow> (nat list \<times> nat \<times> serving) outcome" where
  "ServeHTTP_pipeline Pipes hw r st =
     Next (HTTPServerPipe # Pipes @ [FlusherPipe]) 0 0
       (st\<lparr>w2 := AsResponseWriter hw, request := r, gzs := []\<rparr>)"

definition ServeHTTP :: "pipe list \<Rightarrow> http_ResponseWriter \<Rightarrow> Request \<Rightarrow> serving \<Rightarrow> serving outcome" where
  "ServeHTTP Pipes hw r st =
     (case ServeHTTP_pipeline Pipes hw r st of
        Returned (tr, i, st1) \<Rightarrow> Returned (st1\<lparr>w2 := Flush (w2 st1)\<rparr>)
      | Panicked (tr, i, st1) \<Rightarrow>
          (if and (panicFlags (lsn st1)) OnPanicRecover = 0 then Panicked st1 else Returned st1))"



text \<open>The state of the examples: the sink of the examples, no wrappers, an empty pool of
  capacity 2, a compressor that frames its input (two bytes ahead of its first output,
  the input as it is, one byte at the close), sniffing that answers
  \<^verbatim>\<open>text/html\<close>, a request without headers and a gate with ceiling 10.\<close>

definition st0 :: serving where
  "st0 = \<lparr>w2 = AsResponseWriter (RawSink sink0), gzs = [],
          gzpool = \<lparr>idle = 0, poolCap = 2, gets = 0, puts = 0\<rparr>,
          gzEmit = (\<lambda>h x. (if h = [] then [31, 139] else [])
                            @ (case x of GzWrite b \<Rightarrow> b | GzFlush \<Rightarrow> [] | GzClose \<Rightarrow> [0])),
          DetectContentType = (\<lambda>b. ''text/html; charset=utf-8''),
          request = \<lparr>reqHeader = Map.empty\<rparr>,
          lsn = NewListener l0 10 0, seqno = 0\<rparr>"

text \<open>
  The wrapper's invariant while a request is served, relative to the calls \<open>old\<close> the
  raw sink had received before: since then it has been sent one status line, carrying
  \<open>ResponseCode\<close>, if the wrapper is committed, and none if it is not.
\<close>

definition rw_inv :: "sink_call list \<Rightarrow> responseWriter \<Rightarrow> bool" where
  "rw_inv old t \<longleftrightarrow>
     (\<exists>new. calls (w t) = old @ new \<and> statuses new = (if headerWritten t then [ResponseCode t] else []))"

subsection \<open>What the compression stage is to achieve\<close>

















section \<open>Properties of the response sink wrapper\<close>

lemma statuses_append: "statuses (xs @ ys) = statuses xs @ statuses ys"
  by (induction xs rule: statuses.induct) auto

lemma run_WriteHeaders:
  "\<not> headerWritten t \<Longrightarrow> rw_run (map OpWriteHeader cs) t = t\<lparr>code := last (code t # cs)\<rparr>"
  by (induction cs arbitrary: t) (auto simp: WriteHeader_def)

lemma commit_first:
  "is_commit x \<Longrightarrow> \<not> headerWritten t \<Longrightarrow>
     headerWritten (rw_apply x t) \<and> code (rw_apply x t) = code t \<and>
     (\<exists>own. calls (w (rw_apply x t)) = calls (w t) @ SinkWriteHeader (ResponseCode t) (hdr (w t)) # own
        \<and> statuses own = [])"
  by (cases x) (auto simp: Write_def Flush_def ensureHeaderWritten_def sink_WriteHeader_def
      sink_Write_def sink_Flush_def Let_def split: prod.splits)

lemma committed_step:
  "headerWritten t \<Longrightarrow>
     headerWritten (rw_apply x t) \<and> code (rw_apply x t) = code t \<and>
     statuses (calls (w (rw_apply x t))) = statuses (calls (w t))"
  by (cases x) (auto simp: Write_def Flush_def ensureHeaderWritten_def WriteHeader_def
      sink_Write_def sink_Flush_def Let_def statuses_append split: prod.splits)

lemma committed_run:
  "headerWritten t \<Longrightarrow>
     headerWritten (rw_run xs t) \<and> code (rw_run xs t) = code t \<and>
     statuses (calls (w (rw_run xs t))) = statuses (calls (w t))"
  by (induction xs arbitrary: t) (auto simp: committed_step)

lemma sink0_io_Writer_ok: "io_Writer_ok sink0"
  by (simp add: io_Writer_ok_def sink0_def)

text \<open>
  C1. A \<^verbatim>\<open>WriteHeader(c)\<close> call on an uncommitted wrapper only records \<open>c\<close>: after any
  number of them the wrapper is the one it was, with \<open>code\<close> the last value given, so
  nothing has reached the raw sink and \<open>headerWritten\<close> is still false. The first
  \<^verbatim>\<open>Write\<close> or \<^verbatim>\<open>Flush\<close> sends exactly one status line to the raw sink, carrying
  \<open>ResponseCode\<close>: the recorded code, or 200 where none is set (the wrapper's test for
  that is \<open>code \<le> 0\<close>), and marks the wrapper committed. Whatever calls follow, no
  further status line is sent, the recorded code stays, and a later \<^verbatim>\<open>WriteHeader\<close>
  returns the wrapper unchanged.
\<close>

theorem C1_status_deferred_then_committed_once:
  assumes "\<not> headerWritten t" and "is_commit x"
  shows "rw_run (map OpWriteHeader cs) t = t\<lparr>code := last (code t # cs)\<rparr>
       \<and> headerWritten (rw_apply x (rw_run (map OpWriteHeader cs) t))
       \<and> (\<exists>own. calls (w (rw_apply x (rw_run (map OpWriteHeader cs) t)))
                = calls (w t) @ SinkWriteHeader (ResponseCode (t\<lparr>code := last (code t # cs)\<rparr>)) (hdr (w t)) # own
              \<and> statuses own = [])
       \<and> ResponseCode (t\<lparr>code := last (code t # cs)\<rparr>)
            = (if last (code t # cs) \<le> 0 then 200 else last (code t # cs))
       \<and> statuses (calls (w (rw_run ys (rw_apply x (rw_run (map OpWriteHeader cs) t)))))
            = statuses (calls (w t)) @ [ResponseCode (t\<lparr>code := last (code t # cs)\<rparr>)]
       \<and> ResponseCode (rw_run ys (rw_apply x (rw_run (map OpWriteHeader cs) t)))
            = ResponseCode (t\<lparr>code := last (code t # cs)\<rparr>)
       \<and> WriteHeader c (rw_run ys (rw_apply x (rw_run (map OpWriteHeader cs) t)))
            = rw_run ys (rw_apply x (rw_run (map OpWriteHeader cs) t))"
proof -
  define t1 where "t1 = t\<lparr>code := last (code t # cs)\<rparr>"
  define t2 where "t2 = rw_apply x t1"
  define t3 where "t3 = rw_run ys t2"
  have r1: "rw_run (map OpWriteHeader cs) t = t1"
    unfolding t1_def using assms(1) by (rule run_WriteHeaders)
  have u1: "\<not> headerWritten t1" and wt1: "w t1 = w t"
    using assms(1) by (simp_all add: t1_def)
  from commit_first [OF assms(2) u1]
  obtain own where c2: "headerWritten t2"
    and k2: "code t2 = code t1"
    and o2: "calls (w t2) = calls (w t) @ SinkWriteHeader (ResponseCode t1) (hdr (w t)) # own"
    and s2: "statuses own = []"
    unfolding t2_def wt1 by blast
  have s3: "statuses (calls (w t2)) = statuses (calls (w t)) @ [ResponseCode t1]"
    unfolding o2 statuses_append by (simp add: s2)
  have r3: "headerWritten t3" "code t3 = code t2" "statuses (calls (w t3)) = statuses (calls (w t2))"
    using committed_run [OF c2, of ys] unfolding t3_def by blast+
  have k3: "ResponseCode t3 = ResponseCode t1"
    unfolding ResponseCode_def r3(2) k2 by (rule refl)
  have w3: "WriteHeader c t3 = t3"
    using r3(1) by (simp add: WriteHeader_def)
  have rc: "ResponseCode t1 = (if last (code t # cs) \<le> 0 then 200 else last (code t # cs))"
    unfolding t1_def ResponseCode_def StatusOK_def by simp
  have s4: "statuses (calls (w t3)) = statuses (calls (w t)) @ [ResponseCode t1]"
    unfolding r3(3) by (rule s3)
  have ex: "\<exists>own. calls (w t2)
      = calls (w t) @ SinkWriteHeader (ResponseCode t1) (hdr (w t)) # own \<and> statuses own = []"
    using o2 s2 by blast
  have "rw_run (map OpWriteHeader cs) t = t1 \<and> headerWritten t2 \<and>
      (\<exists>own. calls (w t2) = calls (w t) @ SinkWriteHeader (ResponseCode t1) (hdr (w t)) # own
          \<and> statuses own = []) \<and>
      ResponseCode t1 = (if last (code t # cs) \<le> 0 then 200 else last (code t # cs)) \<and>
      statuses (calls (w t3)) = statuses (calls (w t)) @ [ResponseCode t1] \<and>
      ResponseCode t3 = ResponseCode t1 \<and> WriteHeader c t3 = t3"
    by (intro conjI r1 c2 ex rc s4 k3 w3)
  then show ?thesis
    unfolding r1 unfolding t3_def t2_def unfolding t1_def .
qed

theorem C1_status_deferred_then_committed_once_witness:
  "\<not> headerWritten (AsResponseWriter (RawSink sink0)) \<and> is_commit (OpWrite [1, 2])
     \<and> rw_run [OpWriteHeader 500, OpWriteHeader 404] (AsResponseWriter (RawSink sink0))
           = \<lparr>w = sink0, numBytesW = 0, code = 404, headerWritten = False\<rparr>
     \<and> statuses (calls (w (rw_run [OpWriteHeader 500, OpWriteHeader 404, OpWrite [1, 2], OpWriteHeader 302, OpFlush]
           (AsResponseWriter (RawSink sink0))))) = [404]"
proof -
  have h1: "\<not> headerWritten (AsResponseWriter (RawSink sink0))"
    by simp
  have h2: "is_commit (OpWrite [1, 2])"
    by simp
  have e: "rw_run [OpWriteHeader 500, OpWriteHeader 404, OpWrite [1, 2], OpWriteHeader 302, OpFlush] t
         = rw_run [OpWriteHeader 302, OpFlush] (rw_apply (OpWrite [1, 2]) (rw_run (map OpWriteHeader [500, 404]) t))" for t
    by simp
  show ?thesis
    using C1_status_deferred_then_committed_once [OF h1 h2, of "[500, 404]" "[OpWriteHeader 302, OpFlush]" 0]
    unfolding e
    by (simp add: ResponseCode_def StatusOK_def sink0_def WriteHeader_def Write_def Flush_def
        ensureHeaderWritten_def sink_WriteHeader_def sink_Write_def sink_Flush_def)
qed

text \<open>
  C10. On an uncommitted wrapper over a raw sink that keeps the \<^verbatim>\<open>io.Writer\<close> contract,
  \<^verbatim>\<open>Write\<close> of the empty buffer already commits: the raw sink receives the status line
  (with \<open>ResponseCode\<close>) and then the empty write, \<open>IsHeaderWritten\<close> becomes true, and
  \<open>NumBytesWritten\<close> is what it was.
\<close>

theorem C10_empty_write_commits:
  assumes "\<not> IsHeaderWritten t" and "io_Writer_ok (w t)"
  shows "fst (fst (Write [] t)) = 0
       \<and> IsHeaderWritten (snd (Write [] t))
       \<and> calls (w (snd (Write [] t)))
            = calls (w t) @ [SinkWriteHeader (ResponseCode t) (hdr (w t)), SinkWrite []]
       \<and> NumBytesWritten (snd (Write [] t)) = NumBytesWritten t
       \<and> ResponseCode (snd (Write [] t)) = ResponseCode t"
proof -
  let ?h = "calls (w t) @ [SinkWriteHeader (ResponseCode t) (hdr (w t))]"
  have z: "fst (wres (w t) ?h []) = 0"
  proof -
    have "0 \<le> fst (wres (w t) ?h []) \<and> fst (wres (w t) ?h []) \<le> int (length ([] :: bytes))"
      using assms(2) unfolding io_Writer_ok_def by blast
    then show ?thesis by simp
  qed
  show ?thesis
    using assms(1) z
    by (simp add: Write_def ensureHeaderWritten_def sink_WriteHeader_def sink_Write_def
        IsHeaderWritten_def NumBytesWritten_def ResponseCode_def Let_def split: prod.splits)
qed

theorem C10_empty_write_commits_witness:
  "\<not> IsHeaderWritten (WriteHeader 404 (AsResponseWriter (RawSink sink0)))
     \<and> io_Writer_ok (w (WriteHeader 404 (AsResponseWriter (RawSink sink0))))
     \<and> IsHeaderWritten (snd (Write [] (WriteHeader 404 (AsResponseWriter (RawSink sink0)))))
     \<and> calls (w (snd (Write [] (WriteHeader 404 (AsResponseWriter (RawSink sink0))))))
          = [SinkWriteHeader 404 Map.empty, SinkWrite []]
     \<and> NumBytesWritten (snd (Write [] (WriteHeader 404 (AsResponseWriter (RawSink sink0))))) = 0"
proof -
  have h1: "\<not> IsHeaderWritten (WriteHeader 404 (AsResponseWriter (RawSink sink0)))"
    by (simp add: IsHeaderWritten_def WriteHeader_def)
  have h2: "io_Writer_ok (w (WriteHeader 404 (AsResponseWriter (RawSink sink0))))"
    by (simp add: WriteHeader_def sink0_io_Writer_ok)
  show ?thesis
    using h1 h2 C10_empty_write_commits [OF h1 h2]
    by (simp add: WriteHeader_def ResponseCode_def NumBytesWritten_def sink0_def)
qed

section \<open>Thresholds of the gate\<close>




















section \<open>Properties of the gate\<close>

lemma Run_enter_closed: "closed s = 1 \<Longrightarrow> Run_enter s = (EntryClosed, s)"
  by (simp add: Run_enter_def)

lemma Run_enter_open:
  assumes "closed s \<noteq> 1" and "\<not> trackConnOnAccept s"
  shows "fst (Run_enter s) \<noteq> EntryClosed"
    and "numConn (snd (Run_enter s)) = numConn s + 1"
    and "\<not> trackConnOnAccept (snd (Run_enter s))"
  using assms
  by (simp_all add: Run_enter_def CompareAndSwapUint32_def Let_def)

lemma afterRun_count:
  "\<not> trackConnOnAccept s \<Longrightarrow> numConn (afterRun s) = numConn s - 1"
  by (simp add: afterRun_def CompareAndSwapUint32_def signalCond_def Let_def)

text \<open>
  C6. When the gate is already closed, \<^verbatim>\<open>Run\<close> is the call of \<^verbatim>\<open>onClosed\<close> and nothing
  else: it reports \<^verbatim>\<open>onClosed\<close> as the only callback invoked, its outcome is the outcome
  of \<^verbatim>\<open>onClosed\<close> on the world as it was, whatever \<^verbatim>\<open>onPaused\<close> and \<^verbatim>\<open>onRun\<close> are,
  and the part of \<^verbatim>\<open>Run\<close> before the callbacks leaves the gate, so also the in-flight
  count, as it was.
\<close>

theorem C6_closed_gate_runs_onClosed_only:
  assumes "closed (gate x) = 1"
  shows "Run onClosed onPaused onRun x = ([CbClosed], onClosed x)
       \<and> Run_enter (gate x) = (EntryClosed, gate x)"
  using assms by (simp add: Run_def Run_enter_closed)

theorem C6_closed_gate_runs_onClosed_only_witness:
  "closed (gate \<lparr>gate = snd (Close_begin (NewListener l0 10 0)), rest = ()\<rparr>) = 1
   \<and> Run cb_return cb_panic cb_panic \<lparr>gate = snd (Close_begin (NewListener l0 10 0)), rest = ()\<rparr>
       = ([CbClosed], Returned \<lparr>gate = snd (Close_begin (NewListener l0 10 0)), rest = ()\<rparr>)
   \<and> numConn (snd (Close_begin (NewListener l0 10 0))) = 0"
proof -
  have h: "closed (gate \<lparr>gate = snd (Close_begin (NewListener l0 10 0)), rest = ()\<rparr>) = 1"
    by (simp add: Close_begin_def CompareAndSwapUint32_def NewListener_def)
  have n: "numConn (snd (Close_begin (NewListener l0 10 0))) = 0"
    by (simp add: Close_begin_def CompareAndSwapUint32_def NewListener_def)
  show ?thesis
    using h n C6_closed_gate_runs_onClosed_only [OF h, of cb_return cb_panic cb_panic]
    by (simp add: cb_return_def)
qed

text \<open>
  What \<^verbatim>\<open>Run\<close> does to the count where \<^verbatim>\<open>onPaused\<close> returns. On a gate that is not
  closed (and counts requests in \<^verbatim>\<open>Run\<close>, as every gate built by \<^verbatim>\<open>NewListener\<close> does),
  with callbacks that leave the count as they find it, \<^verbatim>\<open>onRun\<close> is invoked once, on a
  world whose count is one above the count at the call; \<^verbatim>\<open>afterRun\<close> runs once on the
  gate that \<^verbatim>\<open>onRun\<close> leaves, whether \<^verbatim>\<open>onRun\<close> returned or panicked, and takes one off
  the count; a panic of \<^verbatim>\<open>onRun\<close> is passed on after that.
\<close>

lemma Run_restores_count:
  assumes "closed (gate x) \<noteq> 1" and "\<not> trackConnOnAccept (gate x)"
    and "\<forall>y. returned (onPaused y)" and "keeps_count onPaused" and "keeps_count onRun"
  shows "\<exists>y. numConn (gate y) = numConn (gate x) + 1
            \<and> Run onClosed onPaused onRun x
                = (if fst (Run_enter (gate x)) = EntryPaused then [CbPaused, CbRun] else [CbRun],
                   case onRun y of
                     Returned z \<Rightarrow> Returned (z\<lparr>gate := afterRun (gate z)\<rparr>)
                   | Panicked z \<Rightarrow> Panicked (z\<lparr>gate := afterRun (gate z)\<rparr>))
            \<and> numConn (afterRun (gate (state_of (onRun y)))) = numConn (gate (state_of (onRun y))) - 1
            \<and> numConn (gate (state_of (snd (Run onClosed onPaused onRun x)))) = numConn (gate x)"
proof -
  obtain e s1 where en: "Run_enter (gate x) = (e, s1)"
    by (cases "Run_enter (gate x)")
  from Run_enter_open [OF assms(1,2)] en
  have e: "e \<noteq> EntryClosed" and n1: "numConn s1 = numConn (gate x) + 1" and t1: "\<not> trackConnOnAccept s1"
    by simp_all
  define y0 where "y0 = x\<lparr>gate := s1\<rparr>"
  obtain p where pa: "onPaused y0 = Returned p"
  proof (cases "onPaused y0")
    case (Returned q)
    then show ?thesis by (rule that)
  next
    case (Panicked q)
    with assms(3) [rule_format, of y0] show ?thesis by simp
  qed
  define y where "y = (if e = EntryPaused then p else y0)"
  have pk: "numConn (gate p) = numConn (gate y0)" "trackConnOnAccept (gate p) = trackConnOnAccept (gate y0)"
    using assms(4) [unfolded keeps_count_def, rule_format, of y0] pa by simp_all
  have ny: "numConn (gate y) = numConn (gate x) + 1" and ty: "\<not> trackConnOnAccept (gate y)"
    using pk n1 t1 by (auto simp: y_def y0_def)
  define z where "z = state_of (onRun y)"
  have nz: "numConn (gate z) = numConn (gate x) + 1" and tz: "\<not> trackConnOnAccept (gate z)"
    using assms(5) [unfolded keeps_count_def, rule_format, of y] ny ty by (simp_all add: z_def)
  have dec: "numConn (afterRun (gate z)) = numConn (gate z) - 1"
    using tz by (rule afterRun_count)
  have run: "Run onClosed onPaused onRun x
      = (if e = EntryPaused then [CbPaused, CbRun] else [CbRun],
         case onRun y of
           Returned z \<Rightarrow> Returned (z\<lparr>gate := afterRun (gate z)\<rparr>)
         | Panicked z \<Rightarrow> Panicked (z\<lparr>gate := afterRun (gate z)\<rparr>))"
  proof (cases e)
    case EntryClosed
    with e show ?thesis by simp
  next
    case EntryPaused
    then have "Run onClosed onPaused onRun x = Run_deferred onRun [CbPaused] p"
      using en pa [unfolded y0_def] by (simp add: Run_def)
    then show ?thesis
      using EntryPaused by (cases "onRun p") (simp_all add: Run_deferred_def y_def)
  next
    case EntryRun
    then have "Run onClosed onPaused onRun x = Run_deferred onRun [] y0"
      using en by (simp add: Run_def y0_def)
    then show ?thesis
      using EntryRun by (cases "onRun y0") (simp_all add: Run_deferred_def y_def)
  qed
  have fin: "numConn (gate (state_of (snd (Run onClosed onPaused onRun x)))) = numConn (gate x)"
    unfolding run using dec nz by (cases "onRun y") (simp_all add: z_def)
  show ?thesis
    apply (rule exI [of _ y])
    using ny run dec fin en by (simp add: z_def)
qed

lemma keeps_count_return: "keeps_count cb_return"
  by (simp add: keeps_count_def cb_return_def)

lemma keeps_count_panic: "keeps_count cb_panic"
  by (simp add: keeps_count_def cb_panic_def)

text \<open>
  The \<^verbatim>\<open>defer\<close> is registered after \<^verbatim>\<open>onPaused\<close> has been called. So where \<^verbatim>\<open>onPaused\<close>
  itself panics, \<^verbatim>\<open>Run\<close> passes the panic on without \<^verbatim>\<open>afterRun\<close>: \<^verbatim>\<open>onRun\<close> is not
  invoked and the gate is left as \<^verbatim>\<open>onPaused\<close> left it, with the count still raised.
\<close>

lemma Run_onPaused_panics:
  assumes "Run_enter (gate x) = (EntryPaused, s1)" and "onPaused (x\<lparr>gate := s1\<rparr>) = Panicked y"
  shows "Run onClosed onPaused onRun x = ([CbPaused], Panicked y)"
  using assms by (simp add: Run_def)

text \<open>
  C4. A \<^verbatim>\<open>Run\<close> on a gate that is not closed is to take the count up once and down
  once through guaranteed cleanup, so that no invocation leaks an admission slot. It does
  not where \<^verbatim>\<open>onPaused\<close> panics. \<^verbatim>\<open>Run\<close> on a gate that is open and hard-paused, with an
  \<^verbatim>\<open>onPaused\<close> that panics: the count, 0 at the call, has been taken up to 1;
  \<^verbatim>\<open>onPaused\<close> is the only callback invoked; the panic leaves \<^verbatim>\<open>Run\<close>; and the count is
  still 1, because the \<^verbatim>\<open>defer\<close> of \<^verbatim>\<open>afterRun\<close> had not been reached. The same happens
  on a gate that is soft-paused (ceiling 1, one request in flight): the count goes from 1
  to 2 and stays there.
\<close>

theorem C4_onPaused_panic_leaks_slot:
  "closed (HardPause (NewListener l0 10 0)) = 0
   \<and> numConn (HardPause (NewListener l0 10 0)) = 0
   \<and> Run cb_return cb_panic cb_return \<lparr>gate = HardPause (NewListener l0 10 0), rest = ()\<rparr>
       = ([CbPaused],
          Panicked \<lparr>gate = (HardPause (NewListener l0 10 0))\<lparr>numConn := 1\<rparr>, rest = ()\<rparr>)
   \<and> closed (snd (Run_enter (NewListener l0 1 0))) = 0
   \<and> paused (snd (Run_enter (NewListener l0 1 0))) = 1
   \<and> numConn (snd (Run_enter (NewListener l0 1 0))) = 1
   \<and> fst (Run cb_return cb_panic cb_return \<lparr>gate = snd (Run_enter (NewListener l0 1 0)), rest = ()\<rparr>)
       = [CbPaused]
   \<and> numConn (gate (state_of (snd (Run cb_return cb_panic cb_return
        \<lparr>gate = snd (Run_enter (NewListener l0 1 0)), rest = ()\<rparr>)))) = 2"
  by (simp add: Run_def Run_enter_def HardPause_def NewListener_def CompareAndSwapUint32_def
      cb_panic_def cb_return_def Let_def)

lemma gate_step_closed:
  "closed s = 1 \<Longrightarrow> closed (gate_step x s) = 1 \<and> l (gate_step x s) = l s"
  by (cases x)
    (simp_all add: Run_enter_def afterRun_def HardPause_def ResumeFromHardPause_def
      ResetMaxNumConn_def Close_begin_def CompareAndSwapUint32_def signalCond_def Let_def)

lemma gate_run_closed:
  "closed s = 1 \<Longrightarrow> closed (gate_run xs s) = 1 \<and> l (gate_run xs s) = l s"
  by (induction xs arbitrary: s) (simp_all add: gate_step_closed)

lemma waitCond_closed:
  "closed s = 1 \<Longrightarrow>
     closed (snd (waitCond cnd sched s)) = 1 \<and> l (snd (waitCond cnd sched s)) = l s
     \<and> (fst (waitCond cnd sched s) \<longrightarrow> \<not> cnd (snd (waitCond cnd sched s)))"
  by (induction sched arbitrary: s) (simp_all add: gate_run_closed)

lemma Close_begin_first:
  "closed s = 0 \<Longrightarrow>
     Close_begin s = (True, s\<lparr>closed := 1, l := (l s)\<lparr>closeCalls := closeCalls (l s) + 1\<rparr>\<rparr>)"
  by (simp add: Close_begin_def CompareAndSwapUint32_def net_Close_def)

lemma Close_begin_again: "closed s \<noteq> 0 \<Longrightarrow> Close_begin s = (False, s)"
  by (simp add: Close_begin_def CompareAndSwapUint32_def)

text \<open>
  C3. \<^verbatim>\<open>Close\<close> on a gate whose \<open>closed\<close> flag is already set returns no error at once
  and leaves the gate, the raw listener included, as it was. On a gate whose flag is 0
  it sets the flag and closes the raw listener once; the flag then stays set whatever
  steps follow, so every later \<^verbatim>\<open>Close\<close> is such a no-op; and when that first call
  returns, it returns the raw listener's error and the in-flight count is not positive.
\<close>

theorem C3_close_idempotent:
  "(closed s \<noteq> 0 \<longrightarrow> Close sched s = (CloseReturned None, s))
   \<and> (closed s = 0 \<longrightarrow>
        closed (snd (Close_begin s)) = 1
      \<and> closeCalls (l (snd (Close_begin s))) = closeCalls (l s) + 1
      \<and> closed (gate_run ops (snd (Close_begin s))) = 1
      \<and> Close sched' (gate_run ops (snd (Close_begin s)))
          = (CloseReturned None, gate_run ops (snd (Close_begin s)))
      \<and> closed (snd (Close sched s)) = 1
      \<and> closeCalls (l (snd (Close sched s))) = closeCalls (l s) + 1
      \<and> (fst (Close sched s) \<noteq> CloseBlocked \<longrightarrow>
            fst (Close sched s) = CloseReturned (closeErr (l s))
          \<and> sint (numConn (snd (Close sched s))) \<le> 0))"
proof (intro conjI impI)
  assume "closed s \<noteq> 0"
  then show "Close sched s = (CloseReturned None, s)"
    by (simp add: Close_def Close_begin_again)
next
  assume c0: "closed s = 0"
  define s1 where "s1 = s\<lparr>closed := 1, l := (l s)\<lparr>closeCalls := closeCalls (l s) + 1\<rparr>\<rparr>"
  have b: "Close_begin s = (True, s1)"
    unfolding s1_def using c0 by (rule Close_begin_first)
  have c1: "closed s1 = 1" and k1: "closeCalls (l s1) = closeCalls (l s) + 1"
    and e1: "closeErr (l s1) = closeErr (l s)"
    by (simp_all add: s1_def)
  show "closed (snd (Close_begin s)) = 1" "closeCalls (l (snd (Close_begin s))) = closeCalls (l s) + 1"
    by (simp_all add: b c1 k1)
  have c2: "closed (gate_run ops s1) = 1"
    using gate_run_closed [OF c1] by simp
  then show "closed (gate_run ops (snd (Close_begin s))) = 1"
    by (simp add: b)
  show "Close sched' (gate_run ops (snd (Close_begin s)))
          = (CloseReturned None, gate_run ops (snd (Close_begin s)))"
    using c2 by (simp add: b Close_def Close_begin_again)
  obtain r s2 where wc: "waitCond (\<lambda>g. 0 < sint (numConn g)) sched s1 = (r, s2)"
    by (cases "waitCond (\<lambda>g. 0 < sint (numConn g)) sched s1")
  from waitCond_closed [OF c1, of "\<lambda>g. 0 < sint (numConn g)" sched] wc
  have w2: "closed s2 = 1" "l s2 = l s1" "r \<longrightarrow> \<not> 0 < sint (numConn s2)"
    by simp_all
  have cl: "Close sched s = (if r then CloseReturned (closeErr (l s1)) else CloseBlocked, s2)"
    by (simp add: Close_def b wc)
  show "closed (snd (Close sched s)) = 1" "closeCalls (l (snd (Close sched s))) = closeCalls (l s) + 1"
    by (simp_all add: cl w2 k1)
  assume "fst (Close sched s) \<noteq> CloseBlocked"
  then have r by (simp add: cl split: if_splits)
  then show "fst (Close sched s) = CloseReturned (closeErr (l s))" "sint (numConn (snd (Close sched s))) \<le> 0"
    using w2(3) by (simp_all add: cl e1)
qed

lemma lowThreshold_10: "lowThreshold 10 = 9"
proof -
  have n: "nat (sint (10 :: int32)) = 10"
    by simp
  have r1: "round24 10 = 10"
    by (simp add: round24_def bitlen.simps)
  have r2: "round24 (10 * 15938355) div 2 ^ 24 = 9"
    by (simp add: round24_def bitlen.simps Let_def)
  show ?thesis
    unfolding lowThreshold_def float32_095_def n r1 r2 by simp
qed

lemma lowThreshold_2: "lowThreshold 2 = 1"
proof -
  have n: "nat (sint (2 :: int32)) = 2"
    by simp
  have r1: "round24 2 = 2"
    by (simp add: round24_def bitlen.simps)
  have r2: "round24 (2 * 15938355) div 2 ^ 24 = 1"
    by (simp add: round24_def bitlen.simps Let_def)
  show ?thesis
    unfolding lowThreshold_def float32_095_def n r1 r2 by simp
qed

lemma lowThreshold_1: "lowThreshold 1 = 0"
proof -
  have n: "nat (sint (1 :: int32)) = 1"
    by simp
  have r1: "round24 1 = 1"
    by (simp add: round24_def bitlen.simps)
  have r2: "round24 (1 * 15938355) div 2 ^ 24 = 0"
    by (simp add: round24_def bitlen.simps Let_def)
  show ?thesis
    unfolding lowThreshold_def float32_095_def n r1 r2 by simp
qed

lemmas gate_eval =
  NewListener_def Run_enter_def afterRun_def HardPause_def ResumeFromHardPause_def
  ResetMaxNumConn_def Close_begin_def net_Close_def CompareAndSwapUint32_def signalCond_def
  lowThreshold_10 lowThreshold_2 lowThreshold_1 l0_def Let_def

theorem C3_close_idempotent_witness:
  "closed (gate_step OpEnter (NewListener l0 10 0)) = 0
   \<and> fst (Close [[OpExit]] (gate_step OpEnter (NewListener l0 10 0))) = CloseReturned None
   \<and> sint (numConn (snd (Close [[OpExit]] (gate_step OpEnter (NewListener l0 10 0))))) \<le> 0
   \<and> closeCalls (l (snd (Close [[OpExit]] (gate_step OpEnter (NewListener l0 10 0))))) = 1
   \<and> Close [] (gate_run [OpExit] (snd (Close_begin (gate_step OpEnter (NewListener l0 10 0)))))
       = (CloseReturned None, gate_run [OpExit] (snd (Close_begin (gate_step OpEnter (NewListener l0 10 0)))))"
proof -
  define s0 where "s0 = gate_step OpEnter (NewListener l0 10 0)"
  have s0: "s0 = \<lparr>closed = 0, paused = 0, hardPaused = 0, maxNumConnHi = 10, maxNumConnLo = 9,
      numConn = 1, l = l0, panicFlags = 0, trackConnOnAccept = False, events = []\<rparr>"
    by (simp add: s0_def NewListener_def Run_enter_def lowThreshold_10 Let_def)
  have h: "closed s0 = 0"
    by (simp add: s0)
  have nb: "fst (Close [[OpExit]] s0) \<noteq> CloseBlocked"
    by (simp add: s0 Close_def gate_eval)
  have k0: "closeCalls (l s0) = 0" and e0: "closeErr (l s0) = None"
    by (simp_all add: s0 l0_def)
  note c = C3_close_idempotent [of s0 "[[OpExit]]" "[OpExit]" "[]"]
  show ?thesis
    unfolding s0_def [symmetric] using c h nb k0 e0 by simp
qed
















lemma observe_twice [simp]: "observe s (observe s c) = observe s c"
  by (simp add: observe_def crossed_step_def)

lemma observe_upd [simp]:
  "observe (s\<lparr>paused := p\<rparr>) = observe s"
  "observe (s\<lparr>events := e\<rparr>) = observe s"
  "observe (s\<lparr>hardPaused := h\<rparr>) = observe s"
  "observe (s\<lparr>closed := k\<rparr>) = observe s"
  "observe (s\<lparr>l := r\<rparr>) = observe s"
  by (simp_all add: observe_def fun_eq_iff)



























section \<open>Properties of the pipeline\<close>

lemma exec_trace:
  "sorted_wrt (<) tr \<Longrightarrow> (\<forall>j \<in> set tr. j < i) \<Longrightarrow>
     (case state_of (exec ps fs i st tr) of
        (tr', i', st') \<Rightarrow>
          sorted_wrt (<) tr' \<and> (\<forall>j \<in> set tr'. j < i') \<and> i \<le> i'
          \<and> (\<exists>new. tr' = tr @ new \<and> (\<forall>j \<in> set new. i \<le> j \<and> j < length ps)))"
proof (induction ps fs i st tr rule: exec.induct)
  case (2 ps d fs i st tr)
  show ?case
  proof (cases "length ps \<le> i")
    case True
    then show ?thesis using 2 by simp
  next
    case False
    have s: "sorted_wrt (<) (tr @ [i])" and b: "\<forall>j \<in> set (tr @ [i]). j < Suc i"
      using "2.prems" by (auto simp: sorted_wrt_append)
    obtain tr' i' st' where r: "state_of (exec ps (FBody (ps ! i) d # fs) (Suc i) st (tr @ [i])) = (tr', i', st')"
      by (cases "state_of (exec ps (FBody (ps ! i) d # fs) (Suc i) st (tr @ [i]))")
    from "2.IH"(2) [OF False s b] r obtain new where
      n: "sorted_wrt (<) tr'" "\<forall>j \<in> set tr'. j < i'" "Suc i \<le> i'" "tr' = (tr @ [i]) @ new"
        "\<forall>j \<in> set new. Suc i \<le> j \<and> j < length ps"
      by auto
    have "tr' = tr @ (i # new)" "\<forall>j \<in> set (i # new). i \<le> j \<and> j < length ps"
      using n(4,5) False by auto
    then have "\<exists>new. tr' = tr @ new \<and> (\<forall>j \<in> set new. i \<le> j \<and> j < length ps)"
      by blast
    then show ?thesis
      using False r n(1,2,3) by simp
  qed
next
  case (5 ps d fs i st tr)
  obtain e g where en: "Run_enter (lsn (st\<lparr>seqno := seqno st + 1\<rparr>)) = (e, g)"
    by (cases "Run_enter (lsn (st\<lparr>seqno := seqno st + 1\<rparr>))")
  show ?case
  proof (cases e)
    case EntryClosed
    with "5.IH"(1) [OF refl en [symmetric, unfolded EntryClosed] refl "5.prems"] en show ?thesis
      by (simp del: exec.simps add: exec.simps(5) Let_def)
  next
    case EntryPaused
    with "5.IH"(2) [OF refl en [symmetric, unfolded EntryPaused] refl "5.prems"] en show ?thesis
      by (simp del: exec.simps add: exec.simps(5) Let_def)
  next
    case EntryRun
    with "5.IH"(3) [OF refl en [symmetric, unfolded EntryRun] refl "5.prems"] en show ?thesis
      by (simp del: exec.simps add: exec.simps(5) Let_def)
  qed
qed (simp_all split: prod.splits)

lemma sorted_wrt_less_distinct: "sorted_wrt (<) (xs :: nat list) \<Longrightarrow> distinct xs"
  by (induction xs) auto

text \<open>
  C8. \<^verbatim>\<open>Next\<close> on a pipeline whose cursor has reached or passed the end returns at once:
  no fault, no stage invoked, cursor and state as they were. Otherwise it is the call of
  the stage at the cursor, entered with the cursor already one further. Whatever the
  stages do, the positions of the stages invoked in the course of a \<^verbatim>\<open>Next\<close> are
  strictly increasing, lie between the cursor it started from and the end, and so no
  position is invoked twice; the cursor never goes back.
\<close>

theorem C8_next_past_end_and_once:
  "(length ps \<le> i \<longrightarrow> Next ps i d st = Returned ([], i, st))
   \<and> (i < length ps \<longrightarrow> Next ps i d st = exec ps [FBody (ps ! i) d] (Suc i) st [i])
   \<and> distinct (fst (state_of (Next ps i d st)))
   \<and> sorted_wrt (<) (fst (state_of (Next ps i d st)))
   \<and> list_all (\<lambda>j. i \<le> j \<and> j < length ps) (fst (state_of (Next ps i d st)))
   \<and> i \<le> fst (snd (state_of (Next ps i d st)))"
proof -
  obtain tr' i' st' where r: "state_of (exec ps [FNext d] i st []) = (tr', i', st')"
    by (cases "state_of (exec ps [FNext d] i st [])")
  from exec_trace [of "[]" i ps "[FNext d]" st] r
  have t: "sorted_wrt (<) tr'" "\<forall>j \<in> set tr'. i \<le> j \<and> j < length ps" "i \<le> i'"
    by auto
  have p1: "length ps \<le> i \<longrightarrow> Next ps i d st = Returned ([], i, st)"
    by (simp add: Next_def)
  have p2: "i < length ps \<longrightarrow> Next ps i d st = exec ps [FBody (ps ! i) d] (Suc i) st [i]"
    by (simp add: Next_def)
  have p3: "distinct (fst (state_of (Next ps i d st)))"
    and p4: "sorted_wrt (<) (fst (state_of (Next ps i d st)))"
    and p5: "list_all (\<lambda>j. i \<le> j \<and> j < length ps) (fst (state_of (Next ps i d st)))"
    and p6: "i \<le> fst (snd (state_of (Next ps i d st)))"
    unfolding Next_def r fst_conv snd_conv using t by (simp_all add: sorted_wrt_less_distinct list_all_iff)
  show ?thesis
    by (intro conjI p1 p2 p3 p4 p5 p6)
qed

theorem C8_next_past_end_and_once_witness:
  "length [AppPipe (Forward (Forward Done))] \<le> 1
   \<and> Next [AppPipe (Forward (Forward Done))] 1 0 st0 = Returned ([], 1, st0)
   \<and> 0 < length [AppPipe (Forward (Forward Done))]
   \<and> Next [AppPipe (Forward (Forward Done))] 0 0 st0 = Returned ([0], 1, st0)"
proof -
  note a = C8_next_past_end_and_once [of "[AppPipe (Forward (Forward Done))]" 1 0 st0]
  note b = C8_next_past_end_and_once [of "[AppPipe (Forward (Forward Done))]" 0 0 st0]
  have "Next [AppPipe (Forward (Forward Done))] 1 0 st0 = Returned ([], 1, st0)"
    using a by simp
  moreover have "Next [AppPipe (Forward (Forward Done))] 0 0 st0
      = exec [AppPipe (Forward (Forward Done))] [FBody (AppPipe (Forward (Forward Done))) 0] (Suc 0) st0 [0]"
    using b by simp
  ultimately show ?thesis by simp
qed

section \<open>Properties of the dispatcher\<close>

lemma rw_inv_WriteHeader: "rw_inv old t \<Longrightarrow> rw_inv old (WriteHeader c t)"
  by (auto simp: rw_inv_def WriteHeader_def)

lemma rw_inv_Write: "rw_inv old t \<Longrightarrow> rw_inv old (snd (Write b t))"
  by (auto simp: rw_inv_def Write_def ensureHeaderWritten_def sink_WriteHeader_def sink_Write_def
      ResponseCode_def Let_def statuses_append split: prod.splits)

lemma rw_inv_Flush: "rw_inv old t \<Longrightarrow> rw_inv old (Flush t)"
  by (auto simp: rw_inv_def Flush_def ensureHeaderWritten_def sink_WriteHeader_def sink_Flush_def
      ResponseCode_def Let_def statuses_append)

lemma rw_inv_Header_Set: "rw_inv old t \<Longrightarrow> rw_inv old (Header_Set k v t)"
  by (auto simp: rw_inv_def Header_Set_def ResponseCode_def)

lemma gz_do_inv:
  assumes "\<And>b s. rw_inv old (w2 s) \<Longrightarrow> rw_inv old (w2 (snd (below b s)))" and "rw_inv old (w2 st)"
  shows "rw_inv old (w2 (snd (gz_do below k x st)))"
proof (cases "gw (gzs st ! k)")
  case None
  then show ?thesis using assms(2) by (simp add: gz_do_def)
next
  case (Some z)
  define st1 where "st1 = st\<lparr>gzs := (gzs st)[k := (gzs st ! k)\<lparr>gw := Some (z\<lparr>hist := hist z @ [x]\<rparr>)\<rparr>]\<rparr>"
  have p1: "rw_inv old (w2 st1)"
    using assms(2) by (simp add: st1_def)
  have "snd (gz_do below k x st)
      = (if target z = ToDiscard \<or> gzEmit st (hist z) x = [] then st1
         else snd (below (gzEmit st (hist z) x) st1))"
    by (simp add: gz_do_def Some Let_def st1_def split: prod.splits)
  then show ?thesis
    using p1 assms(1) [OF p1] by simp
qed

lemma gzipWriter_start_inv:
  "rw_inv old (w2 st) \<Longrightarrow> rw_inv old (w2 (gzipWriter_start k b st))"
  by (simp add: gzipWriter_start_def Let_def rw_inv_Header_Set)

lemma w_Write_inv: "rw_inv old (w2 st) \<Longrightarrow> rw_inv old (w2 (snd (w_Write d b st)))"
proof (induction d arbitrary: b st)
  case 0
  then show ?case
    using rw_inv_Write [of old "w2 st" b] by (simp add: case_prod_unfold)
next
  case (Suc k)
  show ?case
  proof (cases "k < length (gzs st)")
    case False
    then show ?thesis using Suc by simp
  next
    case True
    define st1 where "st1 = (if \<not> started (gzs st ! k) then gzipWriter_start k b st else st)"
    have p1: "rw_inv old (w2 st1)"
      using Suc.prems by (simp add: st1_def gzipWriter_start_inv)
    have g: "rw_inv old (w2 (snd (gz_do (w_Write k) k (GzWrite b) st1)))"
      using Suc.IH p1 by (rule gz_do_inv)
    show ?thesis
    proof (cases "gw (gzs st1 ! k)")
      case None
      then show ?thesis
        using True Suc.IH [OF p1, of b] by (simp add: st1_def [symmetric] Let_def)
    next
      case (Some z)
      then show ?thesis
        using True g by (simp add: st1_def [symmetric] Let_def case_prod_unfold split: option.splits)
    qed
  qed
qed

lemma w_Flush_inv: "rw_inv old (w2 st) \<Longrightarrow> rw_inv old (w2 (w_Flush d st))"
proof (induction d arbitrary: st)
  case 0
  then show ?case by (simp add: rw_inv_Flush)
next
  case (Suc k)
  have "rw_inv old (w2 (snd (gz_do (w_Write k) k GzFlush st)))"
    using w_Write_inv Suc.prems by (rule gz_do_inv)
  then show ?case
    using Suc by simp
qed

lemma gzipWriter_Close_inv:
  "rw_inv old (w2 st) \<Longrightarrow> rw_inv old (w2 (snd (gzipWriter_Close k st)))"
proof -
  assume p: "rw_inv old (w2 st)"
  have "rw_inv old (w2 (snd (gz_do (w_Write k) k GzClose st)))"
    using w_Write_inv p by (rule gz_do_inv)
  then show ?thesis
    using p by (simp add: gzipWriter_Close_def case_prod_unfold split: option.splits)
qed

lemma w_call_inv: "rw_inv old (w2 st) \<Longrightarrow> rw_inv old (w2 (w_call d c st))"
  by (cases c) (simp_all add: rw_inv_WriteHeader rw_inv_Header_Set w_Write_inv w_Flush_inv)

lemma unwind_w2: "w2 (unwind fs st) = w2 st"
  by (induction fs st rule: unwind.induct) simp_all

lemma exec_inv:
  "rw_inv old (w2 st) \<Longrightarrow> rw_inv old (w2 (snd (snd (state_of (exec ps fs i st tr)))))"
proof (induction ps fs i st tr rule: exec.induct)
  case (5 ps d fs i st tr)
  obtain e g where en: "Run_enter (lsn (st\<lparr>seqno := seqno st + 1\<rparr>)) = (e, g)"
    by (cases "Run_enter (lsn (st\<lparr>seqno := seqno st + 1\<rparr>))")
  have p1: "rw_inv old (w2 (w_call d (WWriteHeader StatusServiceUnavailable)
      (w_call d (WHeaderSet ''Connection'' ''close'') (st\<lparr>seqno := seqno st + 1\<rparr>))))"
    using "5.prems" by (intro w_call_inv) simp
  have p2: "rw_inv old (w2 (w_call d (WHeaderSet ''Connection'' ''close'') (st\<lparr>seqno := seqno st + 1, lsn := g\<rparr>)))"
    using "5.prems" by (intro w_call_inv) simp
  have p3: "rw_inv old (w2 (st\<lparr>seqno := seqno st + 1, lsn := g\<rparr>))"
    using "5.prems" by simp
  show ?case
  proof (cases e)
    case EntryClosed
    with "5.IH"(1) [OF refl en [symmetric, unfolded EntryClosed] refl p1] en show ?thesis
      by (simp del: exec.simps w_call.simps add: exec.simps(5) Let_def)
  next
    case EntryPaused
    with "5.IH"(2) [OF refl en [symmetric, unfolded EntryPaused] refl p2] en show ?thesis
      by (simp del: exec.simps w_call.simps add: exec.simps(5) Let_def)
  next
    case EntryRun
    with "5.IH"(3) [OF refl en [symmetric, unfolded EntryRun] refl p3] en show ?thesis
      by (simp del: exec.simps w_call.simps add: exec.simps(5) Let_def)
  qed
next
  case (7 ps d c p fs i st tr)
  then show ?case
    by (simp del: w_call.simps add: w_call_inv)
next
  case (11 ps d fs i st tr)
  then show ?case
    by (simp add: w_Flush_inv gzipWriter_Close_inv)
qed (simp_all add: unwind_w2)

lemma Flush_commits:
  assumes "rw_inv old t"
  shows "headerWritten (Flush t)
       \<and> statuses (calls (w (Flush t))) = statuses old @ [ResponseCode t]
       \<and> ResponseCode (Flush t) = ResponseCode t"
proof -
  have h: "headerWritten (Flush t)" and c: "ResponseCode (Flush t) = ResponseCode t"
    by (simp_all add: Flush_def ensureHeaderWritten_def ResponseCode_def Let_def)
  from rw_inv_Flush [OF assms] h obtain new where
    "calls (w (Flush t)) = old @ new" "statuses new = [ResponseCode (Flush t)]"
    unfolding rw_inv_def by auto
  then have "statuses (calls (w (Flush t))) = statuses old @ [ResponseCode t]"
    by (simp add: statuses_append c)
  with h c show ?thesis by simp
qed

text \<open>
  C9. When the pipeline of a request returns, \<^verbatim>\<open>ServeHTTP\<close> returns the state the
  pipeline left with one more \<^verbatim>\<open>Flush\<close> of the wrapped sink. After it the wrapper is
  committed, and since the request began the raw sink has been sent exactly one status
  line, carrying \<open>ResponseCode\<close> of the wrapper as the pipeline left it: the recorded
  code, or 200 where none is set. This holds whatever the stages did, also when none of
  them wrote or flushed.
\<close>

theorem C9_final_flush_commits:
  assumes "\<not> headerWritten (AsResponseWriter hw)"
    and "returned (ServeHTTP_pipeline Pipes hw r st)"
  shows "ServeHTTP Pipes hw r st
           = Returned ((snd (snd (state_of (ServeHTTP_pipeline Pipes hw r st))))
               \<lparr>w2 := Flush (w2 (snd (snd (state_of (ServeHTTP_pipeline Pipes hw r st)))))\<rparr>)
       \<and> headerWritten (w2 (state_of (ServeHTTP Pipes hw r st)))
       \<and> statuses (calls (w (w2 (state_of (ServeHTTP Pipes hw r st)))))
           = statuses (calls (w (AsResponseWriter hw)))
             @ [ResponseCode (w2 (snd (snd (state_of (ServeHTTP_pipeline Pipes hw r st)))))]
       \<and> ResponseCode (w2 (state_of (ServeHTTP Pipes hw r st)))
           = ResponseCode (w2 (snd (snd (state_of (ServeHTTP_pipeline Pipes hw r st)))))"
proof -
  define t0 where "t0 = AsResponseWriter hw"
  define X where "X = ServeHTTP_pipeline Pipes hw r st"
  obtain tr i st1 where X: "X = Returned (tr, i, st1)"
    using assms(2) unfolding X_def [symmetric] by (cases X) auto
  have "rw_inv (calls (w t0)) t0"
    using assms(1) by (simp add: rw_inv_def t0_def)
  then have "rw_inv (calls (w t0)) (w2 (st\<lparr>w2 := t0, request := r, gzs := []\<rparr>))"
    by simp
  then have "rw_inv (calls (w t0)) (w2 (snd (snd (state_of X))))"
    unfolding X_def ServeHTTP_pipeline_def Next_def t0_def by (rule exec_inv)
  then have i1: "rw_inv (calls (w t0)) (w2 st1)"
    by (simp add: X)
  have S: "ServeHTTP Pipes hw r st = Returned (st1\<lparr>w2 := Flush (w2 st1)\<rparr>)"
    by (simp add: ServeHTTP_def X_def [symmetric] X)
  show ?thesis
    unfolding S X_def [symmetric] X t0_def [symmetric]
    using Flush_commits [OF i1] by simp
qed

theorem C9_final_flush_commits_witness:
  "\<not> headerWritten (AsResponseWriter (RawSink sink0))
   \<and> returned (ServeHTTP_pipeline [AppPipe (Call (WWriteHeader 404) Done)] (RawSink sink0) \<lparr>reqHeader = Map.empty\<rparr> st0)
   \<and> returned (ServeHTTP [AppPipe (Call (WWriteHeader 404) Done)] (RawSink sink0) \<lparr>reqHeader = Map.empty\<rparr> st0)
   \<and> headerWritten (w2 (state_of (ServeHTTP [AppPipe (Call (WWriteHeader 404) Done)] (RawSink sink0)
        \<lparr>reqHeader = Map.empty\<rparr> st0)))
   \<and> statuses (calls (w (w2 (state_of (ServeHTTP [AppPipe (Call (WWriteHeader 404) Done)] (RawSink sink0)
        \<lparr>reqHeader = Map.empty\<rparr> st0))))) = [404]"
proof -
  define X where "X = ServeHTTP_pipeline [AppPipe (Call (WWriteHeader 404) Done)] (RawSink sink0) \<lparr>reqHeader = Map.empty\<rparr> st0"
  have h1: "\<not> headerWritten (AsResponseWriter (RawSink sink0))"
    by simp
  have ev: "returned X \<and> code (w2 (snd (snd (state_of X)))) = 404"
    by (simp add: X_def ServeHTTP_pipeline_def Next_def FlusherPipe_def st0_def gate_eval WriteHeader_def)
  then have h2: "returned X" and c: "ResponseCode (w2 (snd (snd (state_of X)))) = 404"
    by (simp_all add: ResponseCode_def)
  note t = C9_final_flush_commits [OF h1 h2 [unfolded X_def], folded X_def]
  have a: "returned (ServeHTTP [AppPipe (Call (WWriteHeader 404) Done)] (RawSink sink0) \<lparr>reqHeader = Map.empty\<rparr> st0)"
    using t by simp
  have b: "headerWritten (w2 (state_of (ServeHTTP [AppPipe (Call (WWriteHeader 404) Done)] (RawSink sink0)
        \<lparr>reqHeader = Map.empty\<rparr> st0)))"
    using t by blast
  have e: "statuses (calls (w (AsResponseWriter (RawSink sink0)))) = []"
    by (simp add: sink0_def)
  have "statuses (calls (w (w2 (state_of (ServeHTTP [AppPipe (Call (WWriteHeader 404) Done)] (RawSink sink0)
        \<lparr>reqHeader = Map.empty\<rparr> st0))))) = [] @ [404]"
    using t unfolding e c by blast
  then show ?thesis
    using h1 h2 a b unfolding X_def by simp
qed

section \<open>Properties of the compression stage\<close>









lemma canonical_Content_Encoding [simp]:
  "CanonicalMIMEHeaderKey ''Content-Encoding'' = ''Content-Encoding''"
  by code_simp

lemma canonical_Content_Type [simp]: "CanonicalMIMEHeaderKey ''Content-Type'' = ''Content-Type''"
  by code_simp

lemma canonical_Accept_Encoding [simp]:
  "CanonicalMIMEHeaderKey ''Accept-Encoding'' = ''Accept-Encoding''"
  by code_simp

lemma hGet_hSet [simp]:
  "hGet (hSet k v h) k' = (if CanonicalMIMEHeaderKey k' = CanonicalMIMEHeaderKey k then v else hGet h k')"
  by (simp add: hGet_def hSet_def)

lemma Header_Header_Set [simp]: "Header (Header_Set k v t) = hSet k v (Header t)"
  by (simp add: Header_def Header_Set_def)

lemma calls_Header_Set [simp]: "calls (w (Header_Set k v t)) = calls (w t)"
  by (simp add: Header_Set_def)

lemma Header_Write [simp]: "Header (snd (Write b t)) = Header t"
  by (simp add: Header_def Write_def ensureHeaderWritten_def sink_WriteHeader_def sink_Write_def
      Let_def case_prod_unfold)


































end
